theory Spec2Isabelle
  imports Complex_Main "HOL-Library.Multiset" "HOL-Library.Sublist"
begin

section \<open>Python values used by \<^verbatim>\<open>scripts/sort_by_qed.py\<close>\<close>

text \<open>
  The script raises \<^verbatim>\<open>SystemExit\<close> with a message itself; \<^verbatim>\<open>float\<close> raises
  \<^verbatim>\<open>TypeError\<close> and \<^verbatim>\<open>ValueError\<close>, and \<^verbatim>\<open>csv.DictWriter\<close> raises
  \<^verbatim>\<open>ValueError\<close>. An exception is the left summand of a result.
\<close>

datatype py_error = TypeError | ValueError | SystemExit string

text \<open>
  A Python \<^verbatim>\<open>float\<close>: not-a-number, the two infinities, or a finite double, kept
  as the rational number it denotes (\<open>0.0\<close> and \<open>-0.0\<close> compare equal and are both
  \<open>Fin 0\<close>).
\<close>

datatype pyfloat = NaN | NInf | Fin rat | PInf

text \<open>Python's \<^verbatim>\<open><\<close> on floats: every comparison with NaN is false.\<close>

fun flt :: "pyfloat \<Rightarrow> pyfloat \<Rightarrow> bool" where
  "flt NaN y = False"
| "flt x NaN = False"
| "flt x NInf = False"
| "flt NInf y = True"
| "flt PInf y = False"
| "flt (Fin a) PInf = True"
| "flt (Fin a) (Fin b) = (a < b)"

text \<open>Python's \<^verbatim>\<open>>=\<close> on floats.\<close>

fun fge :: "pyfloat \<Rightarrow> pyfloat \<Rightarrow> bool" where
  "fge NaN y = False"
| "fge x NaN = False"
| "fge x NInf = True"
| "fge NInf y = False"
| "fge PInf y = True"
| "fge (Fin a) PInf = False"
| "fge (Fin a) (Fin b) = (b \<le> a)"

section \<open>The builtin \<^verbatim>\<open>float\<close> on a cell\<close>

text \<open>
  Strings are ASCII text. \<^verbatim>\<open>str.lower\<close> maps the letters A to Z to a to z and
  leaves every other character alone.
\<close>

definition lower_char :: "char \<Rightarrow> char" where
  "lower_char c =
     (case map_of (zip ''ABCDEFGHIJKLMNOPQRSTUVWXYZ'' ''abcdefghijklmnopqrstuvwxyz'') c of
        Some d \<Rightarrow> d
      | None \<Rightarrow> c)"

definition lower :: "string \<Rightarrow> string" where
  "lower s = map lower_char s"

text \<open>The whitespace \<^verbatim>\<open>float\<close> strips: tab, line feed, vertical tab, form feed,
  carriage return and space.\<close>

definition is_space :: "char \<Rightarrow> bool" where
  "is_space c = (c \<in> set [CHR 0x09, CHR 0x0A, CHR 0x0B, CHR 0x0C, CHR 0x0D, CHR 0x20])"

definition strip :: "string \<Rightarrow> string" where
  "strip s = rev (dropWhile is_space (rev (dropWhile is_space s)))"

definition digit_of :: "char \<Rightarrow> nat option" where
  "digit_of c = map_of (zip ''0123456789'' [0, 1, 2, 3, 4, 5, 6, 7, 8, 9]) c"

definition is_digit :: "char \<Rightarrow> bool" where
  "is_digit c = (digit_of c \<noteq> None)"

text \<open>The number a run of decimal digits denotes, most significant digit first.\<close>

definition dec_val :: "string \<Rightarrow> nat" where
  "dec_val ds = foldl (\<lambda>n c. 10 * n + (case digit_of c of Some d \<Rightarrow> d | None \<Rightarrow> 0)) 0 ds"

text \<open>
  An underscore is allowed only between two digits: \<open>underscores_ok prev s\<close> walks
  the text with the character before it, starting from the NUL character.
\<close>

fun underscores_ok :: "char \<Rightarrow> string \<Rightarrow> bool" where
  "underscores_ok prev [] = (prev \<noteq> CHR ''_'')"
| "underscores_ok prev (c # cs) =
     ((if c = CHR ''_'' then is_digit prev
       else if prev = CHR ''_'' then is_digit c
       else True)
      \<and> underscores_ok c cs)"

definition parse_sign :: "string \<Rightarrow> bool \<times> string" where
  "parse_sign s =
     (case s of
        [] \<Rightarrow> (False, [])
      | c # t \<Rightarrow>
          if c = CHR ''-'' then (True, t)
          else if c = CHR ''+'' then (False, t)
          else (False, s))"

text \<open>
  The exponent part: nothing, or \<open>e\<close>/\<open>E\<close>, an optional sign and at least one digit,
  up to the end of the text.
\<close>

definition parse_exponent :: "string \<Rightarrow> int option" where
  "parse_exponent s =
     (case s of
        [] \<Rightarrow> Some 0
      | c # t \<Rightarrow>
          if c = CHR ''e'' \<or> c = CHR ''E'' then
            (let (neg, u) = parse_sign t;
                 ds = takeWhile is_digit u
             in if ds = [] \<or> dropWhile is_digit u \<noteq> [] then None
                else Some (if neg then - int (dec_val ds) else int (dec_val ds)))
          else None)"

text \<open>
  A decimal literal without its sign: digits, an optional point and digits (at least
  one digit in all), an optional exponent. The result \<open>(m, k)\<close> stands for
  \<open>m * 10 ^ k\<close>.
\<close>

definition parse_decimal :: "string \<Rightarrow> (nat \<times> int) option" where
  "parse_decimal s =
     (let ip = takeWhile is_digit s;
          r = dropWhile is_digit s;
          (fp, r') =
            (case r of
               [] \<Rightarrow> ([], [])
             | c # t \<Rightarrow>
                 if c = CHR ''.'' then (takeWhile is_digit t, dropWhile is_digit t)
                 else ([], r))
      in if ip = [] \<and> fp = [] then None
         else
           (case parse_exponent r' of
              None \<Rightarrow> None
            | Some e \<Rightarrow> Some (dec_val (ip @ fp), e - int (length fp))))"

text \<open>
  Rounding the positive fraction \<open>a / b\<close> to the nearest double, ties to even:
  \<open>ilog2 a b\<close> is the floor of its binary logarithm, the quantum is
  \<open>2 ^ (e - 52)\<close> for a normal number of exponent \<open>e\<close> and \<open>2 ^ (- 1074)\<close> for a
  subnormal one, and a result of \<open>2 ^ 1024\<close> or more overflows (\<open>None\<close>).
\<close>

fun bit_len :: "nat \<Rightarrow> nat" where
  "bit_len n = (if n = 0 then 0 else Suc (bit_len (n div 2)))"

declare bit_len.simps [simp del]

definition scale2 :: "nat \<Rightarrow> nat \<Rightarrow> int \<Rightarrow> nat \<times> nat" where
  "scale2 a b s = (if 0 \<le> s then (a * 2 ^ nat s, b) else (a, b * 2 ^ nat (- s)))"

definition ilog2 :: "nat \<Rightarrow> nat \<Rightarrow> int" where
  "ilog2 a b =
     (let c = int (bit_len a) - int (bit_len b);
          (n, d) = scale2 a b (- c)
      in if d \<le> n then c else c - 1)"

definition round_half_even :: "nat \<Rightarrow> nat \<Rightarrow> nat" where
  "round_half_even n d =
     (let q = n div d; r = n mod d
      in if d < 2 * r \<or> (2 * r = d \<and> odd q) then q + 1 else q)"

definition round_double :: "nat \<Rightarrow> nat \<Rightarrow> rat option" where
  "round_double a b =
     (if a = 0 then Some 0
      else
        let s = 52 - max (ilog2 a b) (- 1022);
            (n, d) = scale2 a b s;
            m = round_half_even n d;
            (p, q) = scale2 m 1 (- s)
        in if 2 ^ 1024 * q \<le> p then None else Some (of_nat p / of_nat q))"

definition decimal_to_float :: "bool \<Rightarrow> nat \<Rightarrow> int \<Rightarrow> pyfloat" where
  "decimal_to_float neg m k =
     (case (if 0 \<le> k then round_double (m * 10 ^ nat k) 1 else round_double m (10 ^ nat (- k))) of
        None \<Rightarrow> if neg then NInf else PInf
      | Some q \<Rightarrow> Fin (if neg then - q else q))"

text \<open>
  \<^verbatim>\<open>float(s)\<close> for a string: strip the whitespace, check and drop the underscores,
  read the sign, then \<open>inf\<close>, \<open>infinity\<close> or \<open>nan\<close> in any case, or a decimal
  literal. Anything else is a \<^verbatim>\<open>ValueError\<close>; a literal too large for a double is
  an infinity.
\<close>

definition float_of_str :: "string \<Rightarrow> py_error + pyfloat" where
  "float_of_str s =
     (let t = strip s
      in if t = [] \<or> \<not> underscores_ok (CHR 0x00) t then Inl ValueError
         else
           (let (neg, r) = parse_sign (filter (\<lambda>c. c \<noteq> CHR ''_'') t)
            in if lower r = ''inf'' \<or> lower r = ''infinity'' then Inr (if neg then NInf else PInf)
               else if lower r = ''nan'' then Inr NaN
               else
                 (case parse_decimal r of
                    None \<Rightarrow> Inl ValueError
                  | Some (m, k) \<Rightarrow> Inr (decimal_to_float neg m k))))"

text \<open>
  A cell of a row read by \<^verbatim>\<open>csv.DictReader\<close> is a string, or \<^verbatim>\<open>None\<close> where the
  line had fewer fields than the header. \<^verbatim>\<open>float(None)\<close> is a \<^verbatim>\<open>TypeError\<close>.
\<close>

definition py_float :: "string option \<Rightarrow> py_error + pyfloat" where
  "py_float v = (case v of None \<Rightarrow> Inl TypeError | Some s \<Rightarrow> float_of_str s)"

section \<open>\<^verbatim>\<open>parse_qed_value\<close>\<close>

text \<open>
  \<^verbatim>\<open>try: return float(value)\<close>, \<^verbatim>\<open>except (TypeError, ValueError): return float("-inf")\<close>.
  Any other exception would pass through.
\<close>

definition parse_qed_value :: "string option \<Rightarrow> py_error + pyfloat" where
  "parse_qed_value v =
     (case py_float v of
        Inr x \<Rightarrow> Inr x
      | Inl e \<Rightarrow> if e = TypeError \<or> e = ValueError then Inr NInf else Inl e)"

section \<open>The builtin \<^verbatim>\<open>sorted\<close> and \<^verbatim>\<open>sort_rows\<close>\<close>

text \<open>
  A row read by \<^verbatim>\<open>csv.DictReader\<close> is a dict: under each header name a string, or
  \<^verbatim>\<open>None\<close> where the line was short; under the key \<^verbatim>\<open>None\<close>, when the line was
  longer than the header, the list of the surplus fields.
\<close>

record row =
  named :: "string \<rightharpoonup> string option"
  surplus :: "string list option"

text \<open>\<^verbatim>\<open>row.get(qed_key, "")\<close>.\<close>

definition row_get :: "row \<Rightarrow> string \<Rightarrow> string option" where
  "row_get r k = (case named r k of None \<Rightarrow> Some [] | Some v \<Rightarrow> v)"

text \<open>
  \<^verbatim>\<open>sorted\<close> is stable and compares keys with \<^verbatim>\<open><\<close> only. The model is insertion
  sort: the sorted part is kept in descending order, and \<open>insort_desc\<close> moves the next
  element past the elements whose key is greater than its own. \<open>sort_asc\<close> is the
  ascending stable sort; with \<^verbatim>\<open>reverse=True\<close> the list is reversed, sorted and
  reversed again, which keeps equal keys in their input order.
  Where \<^verbatim>\<open><\<close> is a strict weak order on the keys (no key is NaN) a stable sort has
  one possible result, the one CPython's sort returns. CPython's sort also returns a
  list as it is when, in the order it sorts, no element's key is \<^verbatim>\<open><\<close> the key of
  the element before it (the list is one run), and so does the model. On any other
  list with a NaN key the order CPython returns depends on how its sort finds and
  merges runs, and the model need not give that order. What is proved below about
  the order of the output is therefore stated for lists without a NaN key, or at a
  list that is one run.
\<close>

fun insort_desc :: "('a \<Rightarrow> pyfloat) \<Rightarrow> 'a \<Rightarrow> 'a list \<Rightarrow> 'a list" where
  "insort_desc f x [] = [x]"
| "insort_desc f x (y # ys) =
     (if flt (f x) (f y) then y # insort_desc f x ys else x # y # ys)"

definition sort_asc :: "('a \<Rightarrow> pyfloat) \<Rightarrow> 'a list \<Rightarrow> 'a list" where
  "sort_asc f xs = rev (foldl (\<lambda>acc x. insort_desc f x acc) [] xs)"

text \<open>The key function is applied to every element first; an exception it raises
  ends the call.\<close>

fun all_keys :: "('a \<Rightarrow> py_error + pyfloat) \<Rightarrow> 'a list \<Rightarrow> py_error + pyfloat list" where
  "all_keys key [] = Inr []"
| "all_keys key (x # xs) =
     (case key x of
        Inl e \<Rightarrow> Inl e
      | Inr k \<Rightarrow> (case all_keys key xs of Inl e \<Rightarrow> Inl e | Inr ks \<Rightarrow> Inr (k # ks)))"

definition py_sorted :: "'a list \<Rightarrow> ('a \<Rightarrow> py_error + pyfloat) \<Rightarrow> bool \<Rightarrow> py_error + 'a list" where
  "py_sorted xs key reverse =
     (case all_keys key xs of
        Inl e \<Rightarrow> Inl e
      | Inr ks \<Rightarrow>
          Inr (map snd
                (if reverse then rev (sort_asc fst (rev (zip ks xs)))
                 else sort_asc fst (zip ks xs))))"

definition sort_rows :: "row list \<Rightarrow> string \<Rightarrow> py_error + row list" where
  "sort_rows rows qed_key =
     py_sorted rows (\<lambda>r. parse_qed_value (row_get r qed_key)) True"

section \<open>\<^verbatim>\<open>resolve_qed_field\<close>\<close>

text \<open>\<^verbatim>\<open>", ".join(names)\<close>.\<close>

fun join_comma :: "string list \<Rightarrow> string" where
  "join_comma [] = []"
| "join_comma [n] = n"
| "join_comma (n # m # ns) = n @ '', '' @ join_comma (m # ns)"

text \<open>The dict comprehension \<^verbatim>\<open>{name.lower(): name for name in fieldnames}\<close>: a later
  name replaces an earlier one with the same key.\<close>

definition lower_mapping :: "string list \<Rightarrow> string \<rightharpoonup> string" where
  "lower_mapping fieldnames = fold (\<lambda>name m. m(lower name \<mapsto> name)) fieldnames Map.empty"

definition not_found_message :: "string list \<Rightarrow> string \<Rightarrow> string" where
  "not_found_message fieldnames desired =
     ''QED column '' @ [CHR 0x27] @ desired @ [CHR 0x27]
       @ '' not found. Available columns: '' @ join_comma fieldnames"

definition resolve_qed_field :: "string list \<Rightarrow> string \<Rightarrow> py_error + string" where
  "resolve_qed_field fieldnames desired =
     (case lower_mapping fieldnames (lower desired) of
        None \<Rightarrow> Inl (SystemExit (not_found_message fieldnames desired))
      | Some name \<Rightarrow> Inr name)"

section \<open>Files, \<^verbatim>\<open>csv.DictReader\<close>, \<^verbatim>\<open>csv.DictWriter\<close> and \<^verbatim>\<open>main\<close>\<close>

text \<open>
  A path is its list of components. A csv file is held as the rows \<^verbatim>\<open>csv.reader\<close>
  yields from it and \<^verbatim>\<open>csv.writer\<close> is given for it, each a list of fields (an empty
  line is the empty list); the quoting of the text is the csv module's own. The world
  of a run is the regular files, the directories made, and the lines printed. The
  operating system never refuses an operation here.
\<close>

type_synonym path = "string list"

record world =
  files :: "path \<rightharpoonup> string list list"
  dirs :: "path set"
  stdout :: "string list"

record args =
  input_path :: path
  output_path :: path
  qed_field :: string

text \<open>\<^verbatim>\<open>DictReader.__next__\<close> on a line that is not empty.\<close>

definition dict_row :: "string list \<Rightarrow> string list \<Rightarrow> row" where
  "dict_row fieldnames line =
     \<lparr> named = fold (\<lambda>k m. m(k \<mapsto> None)) (drop (length line) fieldnames)
                 (Map.empty(fieldnames [\<mapsto>] map Some line)),
       surplus = (if length fieldnames < length line then Some (drop (length fieldnames) line)
                  else None) \<rparr>"

text \<open>\<^verbatim>\<open>list(reader)\<close>: empty lines are skipped.\<close>

definition read_rows :: "string list \<Rightarrow> string list list \<Rightarrow> row list" where
  "read_rows fieldnames body = map (dict_row fieldnames) (filter (\<lambda>line. line \<noteq> []) body)"

text \<open>
  \<^verbatim>\<open>DictWriter._dict_to_list\<close> with the default \<^verbatim>\<open>extrasaction="raise"\<close>: a key that
  is no field name raises \<^verbatim>\<open>ValueError\<close>; otherwise the fields in header order, a
  missing one and \<^verbatim>\<open>None\<close> written as the empty string.
\<close>

definition dict_to_list :: "string list \<Rightarrow> row \<Rightarrow> py_error + string list" where
  "dict_to_list fieldnames r =
     (if surplus r \<noteq> None \<or> \<not> dom (named r) \<subseteq> set fieldnames then Inl ValueError
      else Inr (map (\<lambda>k. case named r k of Some (Some s) \<Rightarrow> s | _ \<Rightarrow> []) fieldnames))"

definition header_dict :: "string list \<Rightarrow> row" where
  "header_dict fieldnames =
     \<lparr> named = Map.empty(fieldnames [\<mapsto>] map Some fieldnames), surplus = None \<rparr>"

definition append_line :: "path \<Rightarrow> string list \<Rightarrow> world \<Rightarrow> world" where
  "append_line p line w =
     w\<lparr> files := (files w)(p \<mapsto> (case files w p of None \<Rightarrow> [line] | Some ls \<Rightarrow> ls @ [line])) \<rparr>"

definition writerow :: "path \<Rightarrow> string list \<Rightarrow> row \<Rightarrow> world \<Rightarrow> (py_error + unit) \<times> world" where
  "writerow p fieldnames r w =
     (case dict_to_list fieldnames r of
        Inl e \<Rightarrow> (Inl e, w)
      | Inr line \<Rightarrow> (Inr (), append_line p line w))"

text \<open>\<^verbatim>\<open>writerows\<close> writes row after row and stops at the first that raises; the rows
  before it are in the file.\<close>

fun writerows :: "path \<Rightarrow> string list \<Rightarrow> row list \<Rightarrow> world \<Rightarrow> (py_error + unit) \<times> world" where
  "writerows p fieldnames [] w = (Inr (), w)"
| "writerows p fieldnames (r # rs) w =
     (case writerow p fieldnames r w of
        (Inl e, w') \<Rightarrow> (Inl e, w')
      | (Inr u, w') \<Rightarrow> writerows p fieldnames rs w')"

text \<open>\<^verbatim>\<open>output_path.parent.mkdir(parents=True, exist_ok=True)\<close>.\<close>

definition mkdir_parents :: "path \<Rightarrow> world \<Rightarrow> world" where
  "mkdir_parents d w = w\<lparr> dirs := dirs w \<union> set (prefixes d) \<rparr>"

text \<open>\<^verbatim>\<open>open("w")\<close> makes the file or empties it.\<close>

definition open_w :: "path \<Rightarrow> world \<Rightarrow> world" where
  "open_w p w = w\<lparr> files := (files w)(p \<mapsto> []) \<rparr>"

definition path_str :: "path \<Rightarrow> string" where
  "path_str p = concat (case p of [] \<Rightarrow> [] | c # cs \<Rightarrow> c # map (\<lambda>d. CHR ''/'' # d) cs)"

fun digits_of_nat :: "nat \<Rightarrow> string" where
  "digits_of_nat n =
     (if n < 10 then [''0123456789'' ! n]
      else digits_of_nat (n div 10) @ [''0123456789'' ! (n mod 10)])"

declare digits_of_nat.simps [simp del]

definition summary :: "nat \<Rightarrow> string \<Rightarrow> path \<Rightarrow> string" where
  "summary n qed p =
     ''Wrote '' @ digits_of_nat n @ '' rows sorted by '' @ [CHR 0x27] @ qed @ [CHR 0x27]
       @ '' (desc) to '' @ path_str p"

definition main :: "args \<Rightarrow> world \<Rightarrow> (py_error + unit) \<times> world" where
  "main a w =
     (case files w (input_path a) of
        None \<Rightarrow> (Inl (SystemExit (''Input file not found: '' @ path_str (input_path a))), w)
      | Some [] \<Rightarrow> (Inl (SystemExit ''Input CSV is missing a header row.''), w)
      | Some (fieldnames # body) \<Rightarrow>
          (case resolve_qed_field fieldnames (qed_field a) of
             Inl e \<Rightarrow> (Inl e, w)
           | Inr qed \<Rightarrow>
               (case sort_rows (read_rows fieldnames body) qed of
                  Inl e \<Rightarrow> (Inl e, w)
                | Inr sorted_rows \<Rightarrow>
                    (let w1 = open_w (output_path a) (mkdir_parents (butlast (output_path a)) w)
                     in case writerow (output_path a) fieldnames (header_dict fieldnames) w1 of
                          (Inl e, w2) \<Rightarrow> (Inl e, w2)
                        | (Inr u, w2) \<Rightarrow>
                            (case writerows (output_path a) fieldnames sorted_rows w2 of
                               (Inl e, w3) \<Rightarrow> (Inl e, w3)
                             | (Inr u', w3) \<Rightarrow>
                                 (Inr (),
                                  w3\<lparr> stdout := stdout w3 @
                                    [summary (length sorted_rows) qed (output_path a)] \<rparr>))))))"

section \<open>\<^verbatim>\<open>sort_rows\<close> on objects\<close>

text \<open>
  For what a call leaves of its arguments, the rows and the lists are objects in a
  store: a list object holds references to row objects. \<^verbatim>\<open>sorted\<close> reads the list
  and the rows and allocates one new list object for its result.
\<close>

record store =
  row_at :: "nat \<Rightarrow> row"
  list_at :: "nat \<Rightarrow> nat list"
  next_ref :: nat

definition sort_rows_obj :: "store \<Rightarrow> nat \<Rightarrow> string \<Rightarrow> py_error + nat \<times> store" where
  "sort_rows_obj h rows qed_key =
     (case py_sorted (list_at h rows) (\<lambda>r. parse_qed_value (row_get (row_at h r) qed_key)) True of
        Inl e \<Rightarrow> Inl e
      | Inr refs \<Rightarrow>
          Inr (next_ref h,
               h\<lparr> list_at := (list_at h)(next_ref h := refs), next_ref := Suc (next_ref h) \<rparr>))"

section \<open>Derived notions\<close>

text \<open>
  The sort key of a row: the value of the key function of \<^verbatim>\<open>sort_rows\<close>, which
  never raises.
\<close>

definition qed_of :: "string \<Rightarrow> row \<Rightarrow> pyfloat" where
  "qed_of qed_key r = (case parse_qed_value (row_get r qed_key) of Inr x \<Rightarrow> x | Inl e \<Rightarrow> NInf)"

text \<open>Insertion sort into descending order, the elements taken from the right:
  what \<^verbatim>\<open>sorted\<close> with \<^verbatim>\<open>reverse=True\<close> comes to.\<close>

definition sort_desc :: "('a \<Rightarrow> pyfloat) \<Rightarrow> 'a list \<Rightarrow> 'a list" where
  "sort_desc f xs = foldr (insort_desc f) xs []"

section \<open>\<^verbatim>\<open>float\<close> and \<^verbatim>\<open>parse_qed_value\<close> never fail past the handler\<close>

lemma float_of_str_error: "float_of_str s = Inl e \<Longrightarrow> e = ValueError"
  by (auto simp: float_of_str_def Let_def split: if_splits prod.splits option.splits)

lemma py_float_error: "py_float v = Inl e \<Longrightarrow> e = TypeError \<or> e = ValueError"
  by (auto simp: py_float_def split: option.splits dest: float_of_str_error)

lemma parse_qed_value_eq:
  "parse_qed_value v = Inr (case py_float v of Inr x \<Rightarrow> x | Inl e \<Rightarrow> NInf)"
  by (auto simp: parse_qed_value_def split: sum.splits dest: py_float_error)

lemma parse_qed_value_row: "parse_qed_value (row_get r k) = Inr (qed_of k r)"
  by (simp add: parse_qed_value_eq qed_of_def)

section \<open>\<^verbatim>\<open>sorted\<close> with \<^verbatim>\<open>reverse=True\<close> is the descending insertion sort\<close>

lemma all_keys_total: "(\<And>x. key x = Inr (f x)) \<Longrightarrow> all_keys key xs = Inr (map f xs)"
  by (induction xs) simp_all

lemma rev_sort_asc_rev: "rev (sort_asc g (rev ps)) = sort_desc g ps"
  by (simp add: sort_asc_def sort_desc_def foldr_conv_foldl)

lemma set_insort_desc [simp]: "set (insort_desc f x ys) = insert x (set ys)"
  by (induction ys) auto

lemma set_sort_desc [simp]: "set (sort_desc f xs) = set xs"
  by (induction xs) (simp_all add: sort_desc_def)

lemma map_snd_insort_desc:
  "\<forall>p \<in> set ps. fst p = f (snd p) \<Longrightarrow>
   map snd (insort_desc fst (f x, x) ps) = insort_desc f x (map snd ps)"
  by (induction ps) auto

lemma map_snd_sort_desc:
  "map snd (sort_desc fst (zip (map f xs) xs)) = sort_desc f xs"
proof (induction xs)
  case Nil
  show ?case by (simp add: sort_desc_def)
next
  case (Cons x xs)
  have inv: "\<forall>p \<in> set (sort_desc fst (zip (map f xs) xs)). fst p = f (snd p)"
    by (auto simp: in_set_zip)
  have "sort_desc fst (zip (map f (x # xs)) (x # xs))
        = insort_desc fst (f x, x) (sort_desc fst (zip (map f xs) xs))"
    by (simp add: sort_desc_def)
  then show ?case
    using map_snd_insort_desc [OF inv, of x] Cons.IH by (simp add: sort_desc_def)
qed

lemma py_sorted_desc:
  "(\<And>x. key x = Inr (f x)) \<Longrightarrow> py_sorted xs key True = Inr (sort_desc f xs)"
  by (simp add: py_sorted_def all_keys_total rev_sort_asc_rev map_snd_sort_desc)

lemma sort_rows_eq: "sort_rows rows k = Inr (sort_desc (qed_of k) rows)"
  unfolding sort_rows_def by (rule py_sorted_desc) (rule parse_qed_value_row)

lemma mset_insort_desc [simp]: "mset (insort_desc f x ys) = add_mset x (mset ys)"
  by (induction ys) auto

lemma mset_sort_desc [simp]: "mset (sort_desc f xs) = mset xs"
  by (induction xs) (simp_all add: sort_desc_def)

lemma length_sort_desc [simp]: "length (sort_desc f xs) = length xs"
  using mset_sort_desc [of f xs] by (metis size_mset)

section \<open>Order, stability and idempotence of the sort\<close>

lemma flt_asym: "flt a b \<Longrightarrow> \<not> flt b a"
  by (cases a; cases b) auto

lemma fge_iff: "a \<noteq> NaN \<Longrightarrow> b \<noteq> NaN \<Longrightarrow> fge a b = (\<not> flt a b)"
  by (cases a; cases b) auto


lemma fge_trans: "fge a b \<Longrightarrow> fge b c \<Longrightarrow> fge a c"
  by (cases a; cases b; cases c) auto

lemma fge_not_NaN: "fge a b \<Longrightarrow> a \<noteq> NaN \<and> b \<noteq> NaN"
  by (cases a; cases b) auto

lemma sorted_insort_desc:
  "f x \<noteq> NaN \<Longrightarrow> \<forall>y \<in> set ys. f y \<noteq> NaN \<Longrightarrow>
   sorted_wrt (\<lambda>a b. fge (f a) (f b)) ys \<Longrightarrow>
   sorted_wrt (\<lambda>a b. fge (f a) (f b)) (insort_desc f x ys)"
proof (induction ys)
  case Nil
  then show ?case by simp
next
  case (Cons y ys)
  show ?case
  proof (cases "flt (f x) (f y)")
    case True
    then have "fge (f y) (f x)" using Cons.prems flt_asym by (simp add: fge_iff)
    then show ?thesis using True Cons by auto
  next
    case False
    then have "fge (f x) (f y)" using Cons.prems by (simp add: fge_iff)
    then show ?thesis using False Cons.prems by (auto intro: fge_trans)
  qed
qed

lemma sorted_sort_desc:
  "\<forall>x \<in> set xs. f x \<noteq> NaN \<Longrightarrow> sorted_wrt (\<lambda>a b. fge (f a) (f b)) (sort_desc f xs)"
proof (induction xs)
  case Nil
  show ?case by (simp add: sort_desc_def)
next
  case (Cons x xs)
  have "sorted_wrt (\<lambda>a b. fge (f a) (f b)) (insort_desc f x (sort_desc f xs))"
    using Cons by (intro sorted_insort_desc) auto
  then show ?case by (simp add: sort_desc_def)
qed

lemma filter_insort_desc_other:
  "\<not> P x \<Longrightarrow> filter P (insort_desc f x ys) = filter P ys"
  by (induction ys) auto

lemma filter_insort_desc_key:
  "f x = k \<Longrightarrow> filter (\<lambda>y. f y = k) (insort_desc f x ys) = x # filter (\<lambda>y. f y = k) ys"
proof (induction ys)
  case Nil
  then show ?case by simp
next
  case (Cons y ys)
  show ?case
  proof (cases "flt (f x) (f y)")
    case True
    then have "f y \<noteq> k" using Cons.prems flt_asym [of "f x" "f y"] by auto
    then show ?thesis using True Cons by auto
  next
    case False
    then show ?thesis using Cons.prems by simp
  qed
qed

lemma filter_sort_desc_key:
  "filter (\<lambda>y. f y = k) (sort_desc f xs) = filter (\<lambda>y. f y = k) xs"
proof (induction xs)
  case Nil
  show ?case by (simp add: sort_desc_def)
next
  case (Cons x xs)
  show ?case
  proof (cases "f x = k")
    case True
    then show ?thesis
      using filter_insort_desc_key [of f x k "sort_desc f xs"] Cons by (simp add: sort_desc_def)
  next
    case False
    then show ?thesis
      using filter_insort_desc_other [of "\<lambda>y. f y = k" x f "sort_desc f xs"] Cons
      by (simp add: sort_desc_def)
  qed
qed


section \<open>Evaluating the model on concrete cells\<close>

lemmas float_eval = float_of_str_def strip_def is_space_def is_digit_def digit_of_def
  parse_sign_def lower_def lower_char_def parse_decimal_def parse_exponent_def dec_val_def
  decimal_to_float_def round_double_def ilog2_def scale2_def bit_len.simps round_half_even_def
  Let_def

lemma float_1: "float_of_str ''1'' = Inr (Fin 1)"
  by (simp add: float_eval)

lemma float_2: "float_of_str ''2'' = Inr (Fin 2)"
  by (simp add: float_eval)

lemma float_nan: "float_of_str ''nan'' = Inr NaN"
  by (simp add: float_eval)

lemma float_neg_inf: "float_of_str ''-inf'' = Inr NInf"
  by (simp add: float_eval)

lemma float_empty: "float_of_str [] = Inl ValueError"
  by (simp add: float_eval)

lemma float_abc: "float_of_str ''abc'' = Inl ValueError"
  by (simp add: float_eval)

lemma float_05: "float_of_str ''0.5'' = Inr (Fin (1 / 2))"
  by (simp add: float_eval)

lemma float_03: "float_of_str ''0.3'' = Inr (Fin (5404319552844595 / 18014398509481984))"
  by (simp add: float_eval)

lemma float_07: "float_of_str ''0.7'' = Inr (Fin (3152519739159347 / 4503599627370496))"
  by (simp add: float_eval)

lemma row_get_dict_row1: "row_get (dict_row [k] [s]) k = Some s"
  by (simp add: row_get_def dict_row_def)

lemma qed_of_eq: "qed_of k r = (case py_float (row_get r k) of Inr x \<Rightarrow> x | Inl e \<Rightarrow> NInf)"
  by (simp add: qed_of_def parse_qed_value_eq)

lemma qed_of_dict_row1:
  "qed_of k (dict_row [k] [s]) = (case float_of_str s of Inr x \<Rightarrow> x | Inl e \<Rightarrow> NInf)"
  by (simp add: qed_of_eq row_get_dict_row1 py_float_def)

section \<open>The order of the output\<close>

text \<open>
  C1, at the input with the cells \<open>1\<close>, \<open>nan\<close>, \<open>2\<close> under the header \<open>qed\<close>: every
  comparison \<^verbatim>\<open>sorted\<close> makes with the NaN key is false, the rows stay as they were,
  and the output has the key 1 before the key 2, which is not descending.
\<close>

theorem sort_rows_nan_not_descending:
  "sort_rows [dict_row [''qed''] [''1''], dict_row [''qed''] [''nan''], dict_row [''qed''] [''2'']] ''qed''
     = Inr [dict_row [''qed''] [''1''], dict_row [''qed''] [''nan''], dict_row [''qed''] [''2'']]
   \<and> parse_qed_value (row_get (dict_row [''qed''] [''1'']) ''qed'') = Inr (Fin 1)
   \<and> parse_qed_value (row_get (dict_row [''qed''] [''2'']) ''qed'') = Inr (Fin 2)
   \<and> \<not> fge (Fin 1) (Fin 2)"
  by (simp add: sort_rows_eq sort_desc_def qed_of_dict_row1 parse_qed_value_row
      float_1 float_2 float_nan)

text \<open>
  Where no key is NaN the output is in descending key order: for positions
  \<open>i < j\<close> of the output, the key at \<open>i\<close> is \<^verbatim>\<open>>=\<close> the key at \<open>j\<close>.
\<close>

theorem sort_rows_descending:
  assumes "sort_rows rows k = Inr out"
    and "\<forall>r \<in> set rows. qed_of k r \<noteq> NaN"
    and "i < j" and "j < length out"
  shows "fge (qed_of k (out ! i)) (qed_of k (out ! j))"
proof -
  have out: "out = sort_desc (qed_of k) rows" using assms(1) by (simp add: sort_rows_eq)
  have "sorted_wrt (\<lambda>a b. fge (qed_of k a) (qed_of k b)) out"
    unfolding out using assms(2) by (rule sorted_sort_desc)
  then show ?thesis using assms(3,4) by (simp add: sorted_wrt_iff_nth_less)
qed

theorem sort_rows_descending_witness:
  "fge (qed_of ''qed'' (dict_row [''qed''] [''0.7''])) (qed_of ''qed'' (dict_row [''qed''] [''0.3'']))"
proof -
  let ?rows = "[dict_row [''qed''] [''0.3''], dict_row [''qed''] [''0.7'']]"
  let ?out = "[dict_row [''qed''] [''0.7''], dict_row [''qed''] [''0.3'']]"
  have s: "sort_rows ?rows ''qed'' = Inr ?out"
    by (simp add: sort_rows_eq sort_desc_def qed_of_dict_row1 float_03 float_07)
  have n: "\<forall>r \<in> set ?rows. qed_of ''qed'' r \<noteq> NaN"
    by (simp add: qed_of_dict_row1 float_03 float_07)
  show ?thesis using sort_rows_descending [OF s n, of 0 1] by simp
qed

section \<open>Rows without a parseable key\<close>

text \<open>
  Against C2 as stated: the cell \<open>-inf\<close> parses as a number, to the same key the
  handler gives an empty cell, so the two rows tie and keep their input order: the
  row with the unparseable key stays before the row with the numeric key.
\<close>

theorem sort_rows_blank_before_neg_inf:
  "sort_rows [dict_row [''qed''] [''''], dict_row [''qed''] [''-inf'']] ''qed''
     = Inr [dict_row [''qed''] [''''], dict_row [''qed''] [''-inf'']]
   \<and> py_float (row_get (dict_row [''qed''] ['''']) ''qed'') = Inl ValueError
   \<and> py_float (row_get (dict_row [''qed''] [''-inf'']) ''qed'') = Inr NInf"
  by (simp add: sort_rows_eq sort_desc_def qed_of_dict_row1 row_get_dict_row1 py_float_def
      float_empty float_neg_inf)

text \<open>
  C2, amended: where no key is NaN, every row whose cell is missing or does not parse
  (\<^verbatim>\<open>float\<close> raises) comes after every row whose key is greater than negative
  infinity; the rows whose cell is missing or does not parse keep their input order
  among themselves, and so do all rows of key negative infinity together.
\<close>

theorem sort_rows_unparseable_last:
  assumes "sort_rows rows k = Inr out"
    and "\<forall>r \<in> set rows. qed_of k r \<noteq> NaN"
  shows "(\<forall>i < length out. \<forall>j < length out.
           isl (py_float (row_get (out ! i) k)) \<and> flt NInf (qed_of k (out ! j)) \<longrightarrow> j < i)
    \<and> filter (\<lambda>r. isl (py_float (row_get r k))) out
           = filter (\<lambda>r. isl (py_float (row_get r k))) rows
    \<and> filter (\<lambda>r. qed_of k r = NInf) out = filter (\<lambda>r. qed_of k r = NInf) rows"
proof -
  have out: "out = sort_desc (qed_of k) rows" using assms(1) by (simp add: sort_rows_eq)
  have srt: "sorted_wrt (\<lambda>a b. fge (qed_of k a) (qed_of k b)) out"
    unfolding out using assms(2) by (rule sorted_sort_desc)
  have bad: "isl (py_float (row_get r k)) \<Longrightarrow> qed_of k r = NInf" for r
    by (cases "py_float (row_get r k)") (simp_all add: qed_of_eq)
  have pos: "\<forall>i < length out. \<forall>j < length out.
           isl (py_float (row_get (out ! i) k)) \<and> flt NInf (qed_of k (out ! j)) \<longrightarrow> j < i"
  proof (intro allI impI)
    fix i j
    assume i: "i < length out" and j: "j < length out"
      and h: "isl (py_float (row_get (out ! i) k)) \<and> flt NInf (qed_of k (out ! j))"
    have ki: "qed_of k (out ! i) = NInf" using h bad by blast
    have kj: "flt NInf (qed_of k (out ! j))" using h by blast
    have "\<not> i < j"
    proof
      assume "i < j"
      then have "fge (qed_of k (out ! i)) (qed_of k (out ! j))"
        using srt j by (simp add: sorted_wrt_iff_nth_less)
      then show False using ki kj by (cases "qed_of k (out ! j)") auto
    qed
    moreover have "i \<noteq> j" using ki kj by auto
    ultimately show "j < i" by simp
  qed
  have ninf: "filter (\<lambda>r. qed_of k r = NInf) out = filter (\<lambda>r. qed_of k r = NInf) rows"
    unfolding out by (rule filter_sort_desc_key)
  have "filter (\<lambda>r. isl (py_float (row_get r k))) xs
          = filter (\<lambda>r. isl (py_float (row_get r k))) (filter (\<lambda>r. qed_of k r = NInf) xs)" for xs
    by (induction xs) (auto dest: bad)
  then have "filter (\<lambda>r. isl (py_float (row_get r k))) out
           = filter (\<lambda>r. isl (py_float (row_get r k))) rows"
    using ninf by metis
  with pos ninf show ?thesis by (intro conjI)
qed

theorem sort_rows_unparseable_last_witness:
  "sort_rows [dict_row [''qed''] [''''], dict_row [''qed''] [''0.3''], dict_row [''qed''] [''0.7'']] ''qed''
     = Inr [dict_row [''qed''] [''0.7''], dict_row [''qed''] [''0.3''], dict_row [''qed''] ['''']]
   \<and> filter (\<lambda>r. isl (py_float (row_get r ''qed'')))
        [dict_row [''qed''] [''0.7''], dict_row [''qed''] [''0.3''], dict_row [''qed''] ['''']]
     = filter (\<lambda>r. isl (py_float (row_get r ''qed'')))
        [dict_row [''qed''] [''''], dict_row [''qed''] [''0.3''], dict_row [''qed''] [''0.7'']]"
proof -
  let ?rows = "[dict_row [''qed''] [''''], dict_row [''qed''] [''0.3''], dict_row [''qed''] [''0.7'']]"
  let ?out = "[dict_row [''qed''] [''0.7''], dict_row [''qed''] [''0.3''], dict_row [''qed''] ['''']]"
  have s: "sort_rows ?rows ''qed'' = Inr ?out"
    by (simp add: sort_rows_eq sort_desc_def qed_of_dict_row1 float_03 float_07 float_empty)
  have n: "\<forall>r \<in> set ?rows. qed_of ''qed'' r \<noteq> NaN"
    by (simp add: qed_of_dict_row1 float_03 float_07 float_empty)
  show ?thesis
    using s sort_rows_unparseable_last [OF s n] by blast
qed

section \<open>\<^verbatim>\<open>parse_qed_value\<close> is total\<close>

text \<open>
  C3: for every cell, a string or \<^verbatim>\<open>None\<close>, \<^verbatim>\<open>parse_qed_value\<close> returns a float and
  raises nothing: the float \<^verbatim>\<open>float\<close> returns when it returns one, and negative
  infinity when \<^verbatim>\<open>float\<close> raises.
\<close>

theorem parse_qed_value_total:
  "(\<exists>x. parse_qed_value v = Inr x)
   \<and> (\<forall>x. py_float v = Inr x \<longrightarrow> parse_qed_value v = Inr x)
   \<and> (\<forall>e. py_float v = Inl e \<longrightarrow> parse_qed_value v = Inr NInf)"
  by (simp add: parse_qed_value_eq)

theorem parse_qed_value_total_witness:
  "parse_qed_value (Some ''0.5'') = Inr (Fin (1 / 2))
   \<and> parse_qed_value (Some []) = Inr NInf
   \<and> parse_qed_value (Some ''abc'') = Inr NInf
   \<and> parse_qed_value None = Inr NInf"
proof -
  have a: "py_float (Some ''0.5'') = Inr (Fin (1 / 2))" by (simp add: py_float_def float_05)
  have b: "py_float (Some []) = Inl ValueError" by (simp add: py_float_def float_empty)
  have c: "py_float (Some ''abc'') = Inl ValueError" by (simp add: py_float_def float_abc)
  have d: "py_float None = Inl TypeError" by (simp add: py_float_def)
  show ?thesis
    using a b c d parse_qed_value_total [of "Some ''0.5''"] parse_qed_value_total [of "Some []"]
      parse_qed_value_total [of "Some ''abc''"] parse_qed_value_total [of None]
    by blast
qed

section \<open>Column resolution\<close>

lemma lower_mapping_snoc:
  "lower_mapping (ns @ [n]) = (lower_mapping ns)(lower n \<mapsto> n)"
  by (simp add: lower_mapping_def)

lemma lower_mapping_last:
  "lower_mapping ns k =
     (if filter (\<lambda>n. lower n = k) ns = [] then None
      else Some (last (filter (\<lambda>n. lower n = k) ns)))"
proof (induction ns rule: rev_induct)
  case Nil
  show ?case by (simp add: lower_mapping_def)
next
  case (snoc n ns)
  show ?case unfolding lower_mapping_snoc using snoc by simp
qed

lemma sublist_join_comma: "n \<in> set ns \<Longrightarrow> sublist n (join_comma ns)"
proof (induction ns rule: join_comma.induct)
  case 1
  then show ?case by simp
next
  case (2 m)
  then show ?case by simp
next
  case (3 a b ns)
  show ?case
  proof (cases "n = a")
    case True
    then show ?thesis by simp
  next
    case False
    then have "sublist n (join_comma (b # ns))" using 3 by simp
    then obtain ps ss where "join_comma (b # ns) = ps @ n @ ss" by (auto simp: sublist_def)
    then have "join_comma (a # b # ns) = (a @ '', '' @ ps) @ n @ ss" by simp
    then show ?thesis unfolding sublist_def by blast
  qed
qed

lemma sublist_not_found_message:
  "n \<in> set ns \<Longrightarrow> sublist n (not_found_message ns d)"
proof -
  assume "n \<in> set ns"
  then have "sublist n (join_comma ns)" by (rule sublist_join_comma)
  then obtain ps ss where "join_comma ns = ps @ n @ ss"
    unfolding sublist_def by blast
  then have "not_found_message ns d =
      (''QED column '' @ [CHR 0x27] @ d @ [CHR 0x27] @ '' not found. Available columns: '' @ ps) @ n @ ss"
    by (simp add: not_found_message_def)
  then show ?thesis unfolding sublist_def by blast
qed

text \<open>
  C4: \<^verbatim>\<open>resolve_qed_field\<close> returns a name exactly when some header name equals the
  requested one after lowercasing, and the name it returns is such a header name;
  when there is none it exits with a message that ends with the header names joined
  by commas, so every header name occurs in it.
\<close>

theorem resolve_qed_field_case_insensitive:
  "((\<exists>name. resolve_qed_field fieldnames desired = Inr name)
      \<longleftrightarrow> (\<exists>n \<in> set fieldnames. lower n = lower desired))
   \<and> (\<forall>name. resolve_qed_field fieldnames desired = Inr name
         \<longrightarrow> name \<in> set fieldnames \<and> lower name = lower desired)
   \<and> ((\<forall>n \<in> set fieldnames. lower n \<noteq> lower desired)
         \<longrightarrow> resolve_qed_field fieldnames desired
               = Inl (SystemExit (not_found_message fieldnames desired))
             \<and> (\<forall>n \<in> set fieldnames. sublist n (not_found_message fieldnames desired)))"
proof -
  let ?m = "filter (\<lambda>n. lower n = lower desired) fieldnames"
  show ?thesis
  proof (cases "?m = []")
    case True
    then have none: "\<forall>n \<in> set fieldnames. lower n \<noteq> lower desired"
      by (simp add: filter_empty_conv)
    have "resolve_qed_field fieldnames desired = Inl (SystemExit (not_found_message fieldnames desired))"
      using True by (simp add: resolve_qed_field_def lower_mapping_last)
    then show ?thesis using none by (auto intro: sublist_not_found_message)
  next
    case False
    then have "last ?m \<in> set ?m" by (rule last_in_set)
    then have l: "last ?m \<in> set fieldnames \<and> lower (last ?m) = lower desired" by simp
    have "resolve_qed_field fieldnames desired = Inr (last ?m)"
      using False by (simp add: resolve_qed_field_def lower_mapping_last)
    then show ?thesis using l by auto
  qed
qed

theorem resolve_qed_field_case_insensitive_witness:
  "resolve_qed_field [''ID'', ''QED''] ''qed'' = Inr ''QED''
   \<and> resolve_qed_field [''id'', ''qed'', ''name''] ''price''
       = Inl (SystemExit (''QED column '' @ [CHR 0x27] @ ''price'' @ [CHR 0x27]
                @ '' not found. Available columns: id, qed, name''))
   \<and> sublist ''name'' (not_found_message [''id'', ''qed'', ''name''] ''price'')"
proof -
  note T = resolve_qed_field_case_insensitive [of "[''ID'', ''QED'']" "''qed''"]
  note U = resolve_qed_field_case_insensitive [of "[''id'', ''qed'', ''name'']" "''price''"]
  have a: "\<exists>n \<in> set [''ID'', ''QED'']. lower n = lower ''qed''"
    by (simp add: lower_def lower_char_def)
  have b: "\<forall>n \<in> set [''id'', ''qed'', ''name'']. lower n \<noteq> lower ''price''"
    by (simp add: lower_def lower_char_def)
  from T a obtain name where n: "resolve_qed_field [''ID'', ''QED''] ''qed'' = Inr name"
    by blast
  with T have m: "name \<in> set [''ID'', ''QED''] \<and> lower name = lower ''qed''"
    by blast
  have "lower ''ID'' \<noteq> lower ''qed''" by (simp add: lower_def lower_char_def)
  with m have "name = ''QED''" by auto
  with n have r1: "resolve_qed_field [''ID'', ''QED''] ''qed'' = Inr ''QED''" by simp
  from U b have u: "resolve_qed_field [''id'', ''qed'', ''name''] ''price''
               = Inl (SystemExit (not_found_message [''id'', ''qed'', ''name''] ''price''))
             \<and> (\<forall>n \<in> set [''id'', ''qed'', ''name''].
                   sublist n (not_found_message [''id'', ''qed'', ''name''] ''price''))"
    by blast
  have msg: "not_found_message [''id'', ''qed'', ''name''] ''price''
      = ''QED column '' @ [CHR 0x27] @ ''price'' @ [CHR 0x27]
                @ '' not found. Available columns: id, qed, name''"
    by (simp add: not_found_message_def)
  from u have r2: "resolve_qed_field [''id'', ''qed'', ''name''] ''price''
       = Inl (SystemExit (''QED column '' @ [CHR 0x27] @ ''price'' @ [CHR 0x27]
                @ '' not found. Available columns: id, qed, name''))"
    unfolding msg by (rule conjunct1)
  from u have "\<forall>n \<in> set [''id'', ''qed'', ''name''].
                   sublist n (not_found_message [''id'', ''qed'', ''name''] ''price'')"
    by (rule conjunct2)
  then have r3: "sublist ''name'' (not_found_message [''id'', ''qed'', ''name''] ''price'')"
    by (rule bspec) simp
  from r1 r2 r3 show ?thesis by (intro conjI)
qed

text \<open>
  C10: of the header names that equal the requested name after lowercasing, the
  last in header order is returned.
\<close>

theorem resolve_qed_field_last_wins:
  "filter (\<lambda>n. lower n = lower desired) fieldnames \<noteq> [] \<Longrightarrow>
   resolve_qed_field fieldnames desired
     = Inr (last (filter (\<lambda>n. lower n = lower desired) fieldnames))"
  by (simp add: resolve_qed_field_def lower_mapping_last)

theorem resolve_qed_field_last_wins_witness:
  "resolve_qed_field [''QED'', ''id'', ''Qed'', ''qed''] ''qEd'' = Inr ''qed''"
proof -
  have f: "filter (\<lambda>n. lower n = lower ''qEd'') [''QED'', ''id'', ''Qed'', ''qed'']
             = [''QED'', ''Qed'', ''qed'']"
    by (simp add: lower_def lower_char_def)
  then have "filter (\<lambda>n. lower n = lower ''qEd'') [''QED'', ''id'', ''Qed'', ''qed''] \<noteq> []"
    by simp
  from resolve_qed_field_last_wins [OF this] show ?thesis unfolding f by simp
qed

section \<open>Sorting twice, and what sorting keeps\<close>



lemma map_insort_desc:
  "map g (insort_desc (\<lambda>x. f (g x)) x ys) = insort_desc f (g x) (map g ys)"
  by (induction ys) auto

lemma map_sort_desc: "map g (sort_desc (\<lambda>x. f (g x)) xs) = sort_desc f (map g xs)"
  by (induction xs) (simp_all add: sort_desc_def map_insort_desc)

lemma sort_rows_obj_eq:
  "sort_rows_obj h l k =
     Inr (next_ref h,
          h\<lparr> list_at := (list_at h)(next_ref h := sort_desc (\<lambda>r. qed_of k (row_at h r)) (list_at h l)),
             next_ref := Suc (next_ref h) \<rparr>)"
  unfolding sort_rows_obj_def
  by (subst py_sorted_desc [where f = "\<lambda>r. qed_of k (row_at h r)"])
     (simp_all add: parse_qed_value_row)

text \<open>
  C9: the output of \<^verbatim>\<open>sort_rows\<close> is a permutation of its input. On objects, the
  call returns a list object that did not exist before, and leaves every row object
  and every list object that existed, the input list among them, as it was; the new
  list holds the references of the input list, permuted, to the same row objects.
\<close>

theorem sort_rows_permutation_no_mutation:
  "(\<exists>out. sort_rows rows k = Inr out \<and> mset out = mset rows)
   \<and> (\<exists>new h'. sort_rows_obj h l k = Inr (new, h')
        \<and> row_at h' = row_at h
        \<and> (\<forall>a. a < next_ref h \<longrightarrow> list_at h' a = list_at h a)
        \<and> new = next_ref h \<and> next_ref h' = Suc new
        \<and> mset (list_at h' new) = mset (list_at h l)
        \<and> sort_rows (map (row_at h) (list_at h l)) k = Inr (map (row_at h') (list_at h' new)))"
  by (simp add: sort_rows_eq sort_rows_obj_eq map_sort_desc)

theorem sort_rows_permutation_no_mutation_witness:
  "\<exists>h'. sort_rows_obj
          \<lparr> row_at = (\<lambda>a. dict_row [''qed''] [''0.3''])(1 := dict_row [''qed''] [''0.7'']),
            list_at = (\<lambda>a. [])(2 := [0, 1]), next_ref = 3 \<rparr> 2 ''qed'' = Inr (3, h')
        \<and> list_at h' 2 = [0, 1]
        \<and> mset (list_at h' 3) = {#0, 1#}
        \<and> row_at h' = (\<lambda>a. dict_row [''qed''] [''0.3''])(1 := dict_row [''qed''] [''0.7''])"
proof -
  let ?h = "\<lparr> row_at = (\<lambda>a. dict_row [''qed''] [''0.3''])(1 := dict_row [''qed''] [''0.7'']),
            list_at = (\<lambda>a. [])(2 := [0, 1]), next_ref = 3 \<rparr>"
  obtain new h' where r: "sort_rows_obj ?h 2 ''qed'' = Inr (new, h')"
      and rows: "row_at h' = row_at ?h"
      and lists: "\<forall>a. a < next_ref ?h \<longrightarrow> list_at h' a = list_at ?h a"
      and new: "new = next_ref ?h"
      and perm: "mset (list_at h' new) = mset (list_at ?h 2)"
    using sort_rows_permutation_no_mutation [of "[]" "''qed''" ?h 2] by blast
  have "list_at h' 2 = list_at ?h 2" using lists by simp
  then show ?thesis using r rows new perm by simp
qed

section \<open>The run: header, records and failures\<close>

lemma map_upds_same:
  "k \<in> set ks \<Longrightarrow> (m(ks [\<mapsto>] map Some ks)) k = Some (Some k)"
proof (induction ks arbitrary: m)
  case Nil
  then show ?case by simp
next
  case (Cons a ks)
  show ?case
  proof (cases "k \<in> set ks")
    case True
    then show ?thesis using Cons.IH by simp
  next
    case False
    then have "k = a" using Cons.prems by simp
    then show ?thesis using False by simp
  qed
qed

lemma dict_to_list_header: "dict_to_list fieldnames (header_dict fieldnames) = Inr fieldnames"
proof -
  have "map (\<lambda>k. case (Map.empty(fieldnames [\<mapsto>] map Some fieldnames)) k of
                    Some (Some s) \<Rightarrow> s | _ \<Rightarrow> []) fieldnames = fieldnames"
    by (rule map_idI) (simp add: map_upds_same)
  then show ?thesis by (simp add: dict_to_list_def header_dict_def)
qed

lemma writerow_header:
  "writerow p fieldnames (header_dict fieldnames) w = (Inr (), append_line p fieldnames w)"
  by (simp add: writerow_def dict_to_list_header)

lemma files_append_line:
  "files w p = Some c \<Longrightarrow> files (append_line p line w) p = Some (c @ [line])"
  by (simp add: append_line_def)

lemma writerows_appends:
  "files w p = Some c \<Longrightarrow> \<exists>ls. files (snd (writerows p fieldnames rs w)) p = Some (c @ ls)"
proof (induction rs arbitrary: w c)
  case Nil
  then show ?case by simp
next
  case (Cons r rs)
  show ?case
  proof (cases "dict_to_list fieldnames r")
    case (Inl e)
    then show ?thesis using Cons.prems by (simp add: writerow_def)
  next
    case (Inr line)
    have "files (append_line p line w) p = Some (c @ [line])"
      using Cons.prems by (rule files_append_line)
    from Cons.IH [OF this] obtain ls
      where "files (snd (writerows p fieldnames rs (append_line p line w))) p = Some ((c @ [line]) @ ls)"
      by blast
    then show ?thesis using Inr by (simp add: writerow_def)
  qed
qed

lemma writerows_all:
  "files w p = Some c \<Longrightarrow> \<forall>r \<in> set rs. \<exists>line. dict_to_list fieldnames r = Inr line \<Longrightarrow>
   \<exists>w' ls. writerows p fieldnames rs w = (Inr (), w') \<and> files w' p = Some (c @ ls)
      \<and> length ls = length rs"
proof (induction rs arbitrary: w c)
  case Nil
  then show ?case by simp
next
  case (Cons r rs)
  from Cons.prems(2) obtain line where l: "dict_to_list fieldnames r = Inr line" by auto
  have f: "files (append_line p line w) p = Some (c @ [line])"
    using Cons.prems(1) by (rule files_append_line)
  have "\<forall>r \<in> set rs. \<exists>line. dict_to_list fieldnames r = Inr line" using Cons.prems(2) by simp
  from Cons.IH [OF f this] obtain w' ls
    where "writerows p fieldnames rs (append_line p line w) = (Inr (), w')"
      and "files w' p = Some ((c @ [line]) @ ls)" and "length ls = length rs"
    by blast
  then have "writerows p fieldnames (r # rs) w = (Inr (), w') \<and> files w' p = Some (c @ (line # ls))
      \<and> length (line # ls) = length (r # rs)"
    using l by (simp add: writerow_def)
  then show ?case by blast
qed

lemma resolve_found:
  "\<exists>n \<in> set fieldnames. lower n = lower desired \<Longrightarrow>
   \<exists>qed. resolve_qed_field fieldnames desired = Inr qed"
  by (auto simp: resolve_qed_field_def lower_mapping_last filter_empty_conv)

lemma resolve_not_found:
  "\<forall>n \<in> set fieldnames. lower n \<noteq> lower desired \<Longrightarrow>
   resolve_qed_field fieldnames desired = Inl (SystemExit (not_found_message fieldnames desired))"
  by (simp add: resolve_qed_field_def lower_mapping_last filter_empty_conv)

lemma main_after_resolve:
  assumes "files w (input_path a) = Some (fieldnames # body)"
    and "resolve_qed_field fieldnames (qed_field a) = Inr qed"
  shows "main a w =
     (let sorted_rows = sort_desc (qed_of qed) (read_rows fieldnames body);
          w2 = append_line (output_path a) fieldnames
                 (open_w (output_path a) (mkdir_parents (butlast (output_path a)) w))
      in case writerows (output_path a) fieldnames sorted_rows w2 of
           (Inl e, w3) \<Rightarrow> (Inl e, w3)
         | (Inr u, w3) \<Rightarrow>
             (Inr (), w3\<lparr> stdout := stdout w3 @ [summary (length sorted_rows) qed (output_path a)] \<rparr>))"
  using assms by (simp add: main_def sort_rows_eq writerow_header Let_def)

lemma files_header_written:
  "files (append_line p fieldnames (open_w p w)) p = Some ([] @ [fieldnames])"
  by (simp add: append_line_def open_w_def)

text \<open>
  C6: when the input file exists, has a header row and the key column resolves, the
  first row of the output file is the input's header row: the same names in the same
  order.
\<close>

theorem main_header_kept:
  assumes "files w (input_path a) = Some (fieldnames # body)"
    and "\<exists>n \<in> set fieldnames. lower n = lower (qed_field a)"
  shows "\<exists>records. files (snd (main a w)) (output_path a) = Some (fieldnames # records)"
proof -
  from assms(2) obtain key where q: "resolve_qed_field fieldnames (qed_field a) = Inr key"
    using resolve_found by blast
  let ?w2 = "append_line (output_path a) fieldnames
               (open_w (output_path a) (mkdir_parents (butlast (output_path a)) w))"
  let ?rs = "sort_desc (qed_of key) (read_rows fieldnames body)"
  have "files ?w2 (output_path a) = Some ([] @ [fieldnames])" by (rule files_header_written)
  from writerows_appends [OF this] obtain ls
    where ls: "files (snd (writerows (output_path a) fieldnames ?rs ?w2)) (output_path a)
                 = Some (([] @ [fieldnames]) @ ls)"
    by blast
  have "files (snd (main a w)) (output_path a) = Some (fieldnames # ls)"
    unfolding main_after_resolve [OF assms(1) q] Let_def using ls
    by (cases "writerows (output_path a) fieldnames ?rs ?w2") (auto split: sum.splits)
  then show ?thesis by blast
qed

text \<open>
  C7: when the input file does not exist, has no header row, or has no header name
  equal to the requested one after lowercasing, \<^verbatim>\<open>main\<close> exits with a message and
  leaves the world as it was: no file is made or changed, no directory is made,
  nothing is printed.
\<close>

theorem main_structural_error:
  assumes "files w (input_path a) = None
     \<or> files w (input_path a) = Some []
     \<or> (\<exists>fieldnames body. files w (input_path a) = Some (fieldnames # body)
           \<and> (\<forall>n \<in> set fieldnames. lower n \<noteq> lower (qed_field a)))"
  shows "\<exists>msg. main a w = (Inl (SystemExit msg), w)"
  using assms by (auto simp: main_def resolve_not_found)

lemma dict_to_list_dict_row:
  assumes "length line \<le> length fieldnames"
  shows "\<exists>out. dict_to_list fieldnames (dict_row fieldnames line) = Inr out"
proof -
  have "dom (fold (\<lambda>k m. m(k \<mapsto> None)) ks m) = dom m \<union> set ks" for ks and m :: "string \<rightharpoonup> string option"
    by (induction ks arbitrary: m) auto
  then have "dom (named (dict_row fieldnames line)) \<subseteq> set fieldnames"
    by (auto simp: dict_row_def dest: in_set_dropD in_set_takeD)
  moreover have "surplus (dict_row fieldnames line) = None"
    using assms by (simp add: dict_row_def)
  ultimately show ?thesis by (simp add: dict_to_list_def)
qed

text \<open>
  Where no line of the input has more fields than the header, the run succeeds and
  the output file holds the header and as many records as were read.
\<close>

theorem main_row_count:
  assumes "files w (input_path a) = Some (fieldnames # body)"
    and "\<exists>n \<in> set fieldnames. lower n = lower (qed_field a)"
    and "\<forall>line \<in> set body. length line \<le> length fieldnames"
  shows "\<exists>w' records. main a w = (Inr (), w')
           \<and> files w' (output_path a) = Some (fieldnames # records)
           \<and> length records = length (read_rows fieldnames body)"
proof -
  from assms(2) obtain key where q: "resolve_qed_field fieldnames (qed_field a) = Inr key"
    using resolve_found by blast
  let ?w2 = "append_line (output_path a) fieldnames
               (open_w (output_path a) (mkdir_parents (butlast (output_path a)) w))"
  let ?rs = "sort_desc (qed_of key) (read_rows fieldnames body)"
  have f: "files ?w2 (output_path a) = Some ([] @ [fieldnames])" by (rule files_header_written)
  have ok: "\<forall>r \<in> set ?rs. \<exists>line. dict_to_list fieldnames r = Inr line"
    using assms(3) by (auto simp: read_rows_def intro: dict_to_list_dict_row)
  from writerows_all [OF f ok] obtain w3 ls
    where w3: "writerows (output_path a) fieldnames ?rs ?w2 = (Inr (), w3)"
      and f3: "files w3 (output_path a) = Some (([] @ [fieldnames]) @ ls)"
      and len: "length ls = length ?rs"
    by blast
  have "main a w = (Inr (), w3\<lparr> stdout := stdout w3 @ [summary (length ?rs) key (output_path a)] \<rparr>)"
    unfolding main_after_resolve [OF assms(1) q] Let_def using w3 by simp
  then show ?thesis using f3 len by simp
qed

lemma float_09: "float_of_str ''0.9'' = Inr (Fin (8106479329266893 / 9007199254740992))"
  by (simp add: float_eval)

lemma float_01: "float_of_str ''0.1'' = Inr (Fin (3602879701896397 / 36028797018963968))"
  by (simp add: float_eval)

lemma row_get_dict_row2: "row_get (dict_row [j, k] (s # t # u)) k = Some t"
  by (simp add: row_get_def dict_row_def)

lemma qed_of_dict_row2:
  "qed_of k (dict_row [j, k] (s # t # u)) = (case float_of_str t of Inr x \<Rightarrow> x | Inl e \<Rightarrow> NInf)"
  by (simp add: qed_of_eq row_get_dict_row2 py_float_def)

text \<open>
  C5, at an input whose second record has one field more than the header: the record
  carries the surplus under the key \<^verbatim>\<open>None\<close>, \<^verbatim>\<open>DictWriter\<close> raises \<^verbatim>\<open>ValueError\<close>
  on it, and the output file is left with the header and one record of the three
  that were read.
\<close>

theorem main_surplus_field:
  "fst (main \<lparr> input_path = [''in.csv''], output_path = [''out'', ''sorted.csv''], qed_field = ''qed'' \<rparr>
          \<lparr> files = [[''in.csv''] \<mapsto>
                      [[''id'', ''qed''], [''1'', ''0.9''], [''2'', ''0.5'', ''x''], [''3'', ''0.1'']]],
            dirs = {}, stdout = [] \<rparr>)
     = Inl ValueError
   \<and> files (snd (main \<lparr> input_path = [''in.csv''], output_path = [''out'', ''sorted.csv''],
                       qed_field = ''qed'' \<rparr>
          \<lparr> files = [[''in.csv''] \<mapsto>
                      [[''id'', ''qed''], [''1'', ''0.9''], [''2'', ''0.5'', ''x''], [''3'', ''0.1'']]],
            dirs = {}, stdout = [] \<rparr>)) [''out'', ''sorted.csv'']
     = Some [[''id'', ''qed''], [''1'', ''0.9'']]
   \<and> length (read_rows [''id'', ''qed''] [[''1'', ''0.9''], [''2'', ''0.5'', ''x''], [''3'', ''0.1'']]) = 3"
proof -
  let ?a = "\<lparr> input_path = [''in.csv''], output_path = [''out'', ''sorted.csv''], qed_field = ''qed'' \<rparr>"
  let ?w = "\<lparr> files = [[''in.csv''] \<mapsto>
                      [[''id'', ''qed''], [''1'', ''0.9''], [''2'', ''0.5'', ''x''], [''3'', ''0.1'']]],
            dirs = {}, stdout = [] \<rparr>"
  let ?h = "[''id'', ''qed'']"
  let ?r1 = "dict_row ?h [''1'', ''0.9'']"
  let ?r2 = "dict_row ?h [''2'', ''0.5'', ''x'']"
  let ?r3 = "dict_row ?h [''3'', ''0.1'']"
  have f: "files ?w (input_path ?a) = Some (?h # [[''1'', ''0.9''], [''2'', ''0.5'', ''x''], [''3'', ''0.1'']])"
    by simp
  have q: "resolve_qed_field ?h (qed_field ?a) = Inr ''qed''"
    by (simp add: resolve_qed_field_def lower_mapping_def lower_def lower_char_def)
  have rows: "read_rows ?h [[''1'', ''0.9''], [''2'', ''0.5'', ''x''], [''3'', ''0.1'']] = [?r1, ?r2, ?r3]"
    by (simp add: read_rows_def)
  have srt: "sort_desc (qed_of ''qed'') [?r1, ?r2, ?r3] = [?r1, ?r2, ?r3]"
    by (simp add: sort_desc_def qed_of_dict_row2 float_09 float_05 float_01)
  have d1: "dict_to_list ?h ?r1 = Inr [''1'', ''0.9'']"
    by (simp add: dict_to_list_def dict_row_def)
  have d2: "dict_to_list ?h ?r2 = Inl ValueError"
    by (simp add: dict_to_list_def dict_row_def)
  have "main ?a ?w =
      (Inl ValueError,
       append_line [''out'', ''sorted.csv''] [''1'', ''0.9'']
         (append_line [''out'', ''sorted.csv''] ?h
            (open_w [''out'', ''sorted.csv''] (mkdir_parents [''out''] ?w))))"
    unfolding main_after_resolve [OF f q] rows srt Let_def
    by (simp add: writerow_def d1 d2)
  then show ?thesis using rows by (simp add: append_line_def open_w_def)
qed

theorem main_header_kept_witness:
  "\<exists>records. files (snd (main
       \<lparr> input_path = [''in.csv''], output_path = [''out.csv''], qed_field = ''qed'' \<rparr>
       \<lparr> files = [[''in.csv''] \<mapsto> [[''ID'', ''QED''], [''a'', ''0.5''], [''b'', ''0.9'']]],
         dirs = {}, stdout = [] \<rparr>)) [''out.csv'']
     = Some ([''ID'', ''QED''] # records)"
proof -
  let ?a = "\<lparr> input_path = [''in.csv''], output_path = [''out.csv''], qed_field = ''qed'' \<rparr>"
  let ?w = "\<lparr> files = [[''in.csv''] \<mapsto> [[''ID'', ''QED''], [''a'', ''0.5''], [''b'', ''0.9'']]],
         dirs = {}, stdout = [] \<rparr>"
  have f: "files ?w (input_path ?a) = Some ([''ID'', ''QED''] # [[''a'', ''0.5''], [''b'', ''0.9'']])"
    by simp
  have n: "\<exists>n \<in> set [''ID'', ''QED'']. lower n = lower (qed_field ?a)"
    by (simp add: lower_def lower_char_def)
  show ?thesis using main_header_kept [OF f n] by simp
qed

theorem main_structural_error_witness:
  "(\<exists>msg. main \<lparr> input_path = [''in.csv''], output_path = [''out.csv''], qed_field = ''qed'' \<rparr>
            \<lparr> files = Map.empty, dirs = {}, stdout = [] \<rparr>
          = (Inl (SystemExit msg), \<lparr> files = Map.empty, dirs = {}, stdout = [] \<rparr>))
   \<and> (\<exists>msg. main \<lparr> input_path = [''in.csv''], output_path = [''out.csv''], qed_field = ''qed'' \<rparr>
            \<lparr> files = [[''in.csv''] \<mapsto> []], dirs = {}, stdout = [] \<rparr>
          = (Inl (SystemExit msg), \<lparr> files = [[''in.csv''] \<mapsto> []], dirs = {}, stdout = [] \<rparr>))
   \<and> (\<exists>msg. main \<lparr> input_path = [''in.csv''], output_path = [''out.csv''], qed_field = ''price'' \<rparr>
            \<lparr> files = [[''in.csv''] \<mapsto> [[''id'', ''qed'', ''name''], [''1'', ''0.5'', ''x'']]],
              dirs = {}, stdout = [] \<rparr>
          = (Inl (SystemExit msg),
             \<lparr> files = [[''in.csv''] \<mapsto> [[''id'', ''qed'', ''name''], [''1'', ''0.5'', ''x'']]],
               dirs = {}, stdout = [] \<rparr>))"
proof -
  let ?a = "\<lparr> input_path = [''in.csv''], output_path = [''out.csv''], qed_field = ''qed'' \<rparr>"
  let ?b = "\<lparr> input_path = [''in.csv''], output_path = [''out.csv''], qed_field = ''price'' \<rparr>"
  let ?w1 = "\<lparr> files = Map.empty, dirs = ({} :: path set), stdout = [] \<rparr>"
  let ?w2 = "\<lparr> files = [[''in.csv''] \<mapsto> []], dirs = ({} :: path set), stdout = [] \<rparr>"
  let ?w3 = "\<lparr> files = [[''in.csv''] \<mapsto> [[''id'', ''qed'', ''name''], [''1'', ''0.5'', ''x'']]],
              dirs = ({} :: path set), stdout = [] \<rparr>"
  have h1: "files ?w1 (input_path ?a) = None
     \<or> files ?w1 (input_path ?a) = Some []
     \<or> (\<exists>fieldnames body. files ?w1 (input_path ?a) = Some (fieldnames # body)
           \<and> (\<forall>n \<in> set fieldnames. lower n \<noteq> lower (qed_field ?a)))"
    by simp
  have h2: "files ?w2 (input_path ?a) = None
     \<or> files ?w2 (input_path ?a) = Some []
     \<or> (\<exists>fieldnames body. files ?w2 (input_path ?a) = Some (fieldnames # body)
           \<and> (\<forall>n \<in> set fieldnames. lower n \<noteq> lower (qed_field ?a)))"
    by simp
  have "\<forall>n \<in> set [''id'', ''qed'', ''name'']. lower n \<noteq> lower ''price''"
    by (simp add: lower_def lower_char_def)
  then have h3: "files ?w3 (input_path ?b) = None
     \<or> files ?w3 (input_path ?b) = Some []
     \<or> (\<exists>fieldnames body. files ?w3 (input_path ?b) = Some (fieldnames # body)
           \<and> (\<forall>n \<in> set fieldnames. lower n \<noteq> lower (qed_field ?b)))"
    by simp
  show ?thesis
    using main_structural_error [OF h1] main_structural_error [OF h2] main_structural_error [OF h3]
    by (intro conjI)
qed

theorem main_row_count_witness:
  "\<exists>w' records. main
       \<lparr> input_path = [''in.csv''], output_path = [''out.csv''], qed_field = ''qed'' \<rparr>
       \<lparr> files = [[''in.csv''] \<mapsto> [[''ID'', ''QED''], [''a'', ''0.5''], [], [''b'']]],
         dirs = {}, stdout = [] \<rparr> = (Inr (), w')
     \<and> files w' [''out.csv''] = Some ([''ID'', ''QED''] # records)
     \<and> length records = 2"
proof -
  let ?a = "\<lparr> input_path = [''in.csv''], output_path = [''out.csv''], qed_field = ''qed'' \<rparr>"
  let ?w = "\<lparr> files = [[''in.csv''] \<mapsto> [[''ID'', ''QED''], [''a'', ''0.5''], [], [''b'']]],
         dirs = {}, stdout = [] \<rparr>"
  have f: "files ?w (input_path ?a) = Some ([''ID'', ''QED''] # [[''a'', ''0.5''], [], [''b'']])"
    by simp
  have n: "\<exists>n \<in> set [''ID'', ''QED'']. lower n = lower (qed_field ?a)"
    by (simp add: lower_def lower_char_def)
  have l: "\<forall>line \<in> set [[''a'', ''0.5''], [], [''b'']]. length line \<le> length [''ID'', ''QED'']"
    by simp
  have "length (read_rows [''ID'', ''QED''] [[''a'', ''0.5''], [], [''b'']]) = 2"
    by (simp add: read_rows_def)
  then show ?thesis using main_row_count [OF f n l] by simp
qed

end
